theory Spec2Isabelle
  imports Complex_Main "HOL-Library.Monad_Syntax"
begin

section \<open>A Lax-Friedrichs solver for the 2D Euler equations\<close>

text \<open>
  A shallow embedding of \<^verbatim>\<open>cfd_euler_gpu.cpp\<close>. The C++ type \<^verbatim>\<open>double\<close> is
  read as \<^typ>\<open>real\<close>: arithmetic is exact; rounding, infinities and NaN are outside
  the model, except for the pressure round trip, which is also evaluated in binary64
  arithmetic. A \<^verbatim>\<open>std::vector\<close> is a list. A loop over an index range is a
  \<^const>\<open>fold\<close> over that range in the order of the sequential program; the OpenMP
  pragmas are not modelled, and the lemmas about the loops that write the arrays are
  proved for an arbitrary list of iterations, hence for every order. The constants that
  \<^verbatim>\<open>main\<close> fixes (grid, obstacle, free stream, step count) are the fields of a
  configuration record, so that the properties are stated for every configuration.
  Indices and counts are natural numbers: the \<^verbatim>\<open>int\<close> values of the program stay
  below \<open>(Nx + 2) * (Ny + 2) = 20604\<close>, far from overflow.
\<close>

subsection \<open>Global parameters\<close>

definition gamma_val :: real where
  "gamma_val = 1.4"

definition CFL :: real where
  "CFL = 0.5"

subsection \<open>Pressure and fluxes\<close>

definition pressure :: "real \<Rightarrow> real \<Rightarrow> real \<Rightarrow> real \<Rightarrow> real" where
  "pressure rho rhou rhov E =
     (let u = rhou / rho;
          v = rhov / rho;
          kinetic = 0.5 * rho * (u * u + v * v)
      in (gamma_val - 1.0) * (E - kinetic))"

text \<open>The four reference parameters through which a flux function returns.\<close>

record flux =
  frho :: real
  frhou :: real
  frhov :: real
  fE :: real

definition fluxX :: "real \<Rightarrow> real \<Rightarrow> real \<Rightarrow> real \<Rightarrow> flux" where
  "fluxX rho rhou rhov E =
     (let u = rhou / rho;
          p = pressure rho rhou rhov E
      in \<lparr>frho = rhou, frhou = rhou * u + p, frhov = rhov * u, fE = (E + p) * u\<rparr>)"

definition fluxY :: "real \<Rightarrow> real \<Rightarrow> real \<Rightarrow> real \<Rightarrow> flux" where
  "fluxY rho rhou rhov E =
     (let v = rhov / rho;
          p = pressure rho rhou rhov E
      in \<lparr>frho = rhov, frhou = rhou * v, frhov = rhov * v + p, fE = (E + p) * v\<rparr>)"

text \<open>
  HOL's division is total (\<open>x / 0 = 0\<close>), the program's is not meaningful at a zero
  divisor. The same three functions again, with every division made partial: the result
  is \<open>None\<close> as soon as one divisor is zero.
\<close>

definition divide_chk :: "real \<Rightarrow> real \<Rightarrow> real option" where
  "divide_chk a b = (if b = 0 then None else Some (a / b))"

definition pressure_chk :: "real \<Rightarrow> real \<Rightarrow> real \<Rightarrow> real \<Rightarrow> real option" where
  "pressure_chk rho rhou rhov E =
     (case divide_chk rhou rho of None \<Rightarrow> None | Some u \<Rightarrow>
      (case divide_chk rhov rho of None \<Rightarrow> None | Some v \<Rightarrow>
        (let kinetic = 0.5 * rho * (u * u + v * v)
         in Some ((gamma_val - 1.0) * (E - kinetic)))))"

definition fluxX_chk :: "real \<Rightarrow> real \<Rightarrow> real \<Rightarrow> real \<Rightarrow> flux option" where
  "fluxX_chk rho rhou rhov E =
     (case divide_chk rhou rho of None \<Rightarrow> None | Some u \<Rightarrow>
      (case pressure_chk rho rhou rhov E of None \<Rightarrow> None | Some p \<Rightarrow>
        Some \<lparr>frho = rhou, frhou = rhou * u + p, frhov = rhov * u, fE = (E + p) * u\<rparr>))"

definition fluxY_chk :: "real \<Rightarrow> real \<Rightarrow> real \<Rightarrow> real \<Rightarrow> flux option" where
  "fluxY_chk rho rhou rhov E =
     (case divide_chk rhov rho of None \<Rightarrow> None | Some v \<Rightarrow>
      (case pressure_chk rho rhou rhov E of None \<Rightarrow> None | Some p \<Rightarrow>
        Some \<lparr>frho = rhov, frhou = rhou * v, frhov = rhov * v + p, fE = (E + p) * v\<rparr>))"

subsection \<open>Binary64 arithmetic\<close>

text \<open>
  The arithmetic of \<^verbatim>\<open>double\<close> on finite values: every operation returns the exact
  result rounded to the nearest binary64 number, ties to the even significand. A finite
  double is the real number it denotes, so the two zeros are one value; \<open>None\<close> stands for
  a result that is not finite (overflow, or a zero divisor). Each operation is rounded on its
  own: no fused multiply-add, no wider intermediate format.
\<close>

definition round_nearest_even :: "real \<Rightarrow> int" where
  "round_nearest_even x =
     (let n = \<lfloor>x\<rfloor>;
          r = x - of_int n
      in if r < 1 / 2 then n else if 1 / 2 < r then n + 1 else if even n then n else n + 1)"

text \<open>The position of the leading bit of a positive integer.\<close>

function ilog2 :: "int \<Rightarrow> int" where
  "ilog2 n = (if n < 2 then 0 else ilog2 (n div 2) + 1)"
  by pat_completeness auto
termination
  by (relation "measure nat") auto

text \<open>The binary exponent of a positive number \<open>a\<close>: the \<open>k\<close> with \<open>2 powi k \<le> a < 2 powi (k + 1)\<close>.\<close>

definition floor_log2 :: "real \<Rightarrow> int" where
  "floor_log2 a =
     (if 1 \<le> a then ilog2 \<lfloor>a\<rfloor>
      else if \<lceil>1 / a\<rceil> \<le> 1 then 0
      else - (ilog2 (\<lceil>1 / a\<rceil> - 1) + 1))"

text \<open>
  Rounding to binary64: 53 significant bits, the exponent of the last bit not below
  \<open>-1074\<close> (subnormal numbers), and no finite result from \<open>2 powi 1024\<close> on.
\<close>

definition binary64 :: "real \<Rightarrow> real option" where
  "binary64 x =
     (if x = 0 then Some 0
      else
        (let e = max (floor_log2 \<bar>x\<bar> - 52) (- 1074);
             m = round_nearest_even (\<bar>x\<bar> / 2 powi e);
             y = of_int m * 2 powi e
         in if 2 powi 1024 \<le> y then None else Some (sgn x * y)))"

definition fadd :: "real \<Rightarrow> real \<Rightarrow> real option" where
  "fadd x y = binary64 (x + y)"

definition fsub :: "real \<Rightarrow> real \<Rightarrow> real option" where
  "fsub x y = binary64 (x - y)"

definition fmul :: "real \<Rightarrow> real \<Rightarrow> real option" where
  "fmul x y = binary64 (x * y)"

definition fdiv :: "real \<Rightarrow> real \<Rightarrow> real option" where
  "fdiv x y = (if y = 0 then None else binary64 (x / y))"




subsection \<open>Configuration\<close>

record config =
  Nx :: nat
  Ny :: nat
  Lx :: real
  Ly :: real
  cx :: real
  cy :: real
  radius :: real
  rho0 :: real
  u0 :: real
  v0 :: real
  p0 :: real
  nSteps :: nat

text \<open>The values \<^verbatim>\<open>main\<close> gives these constants.\<close>

definition main_config :: config where
  "main_config =
     \<lparr>Nx = 200, Ny = 100, Lx = 2.0, Ly = 1.0, cx = 0.5, cy = 0.5, radius = 0.1,
      rho0 = 1.0, u0 = 1.0, v0 = 0.0, p0 = 1.0, nSteps = 2000\<rparr>"

definition dx :: "config \<Rightarrow> real" where
  "dx c = Lx c / real (Nx c)"

definition dy :: "config \<Rightarrow> real" where
  "dy c = Ly c / real (Ny c)"

definition total_size :: "config \<Rightarrow> nat" where
  "total_size c = (Nx c + 2) * (Ny c + 2)"

definition E0 :: "config \<Rightarrow> real" where
  "E0 c = p0 c / (gamma_val - 1.0) + 0.5 * rho0 c * (u0 c * u0 c + v0 c * v0 c)"

definition c0 :: "config \<Rightarrow> real" where
  "c0 c = sqrt (gamma_val * p0 c / rho0 c)"

definition dt :: "config \<Rightarrow> real" where
  "dt c = CFL * min (dx c) (dy c) / (\<bar>u0 c\<bar> + c0 c) / 2.0"

text \<open>The flat offset \<^verbatim>\<open>i*(Ny+2)+j\<close> of cell \<open>(i, j)\<close>.\<close>

definition idx :: "config \<Rightarrow> nat \<Rightarrow> nat \<Rightarrow> nat" where
  "idx c i j = i * (Ny c + 2) + j"

subsection \<open>State arrays\<close>

record state =
  rho :: "real list"
  rhou :: "real list"
  rhov :: "real list"
  E :: "real list"
  rho_new :: "real list"
  rhou_new :: "real list"
  rhov_new :: "real list"
  E_new :: "real list"
  solid :: "bool list"

text \<open>The vectors as constructed: \<^verbatim>\<open>total_size\<close> zeros, and a mask of \<^verbatim>\<open>false\<close>.\<close>

definition alloc :: "config \<Rightarrow> state" where
  "alloc c =
     \<lparr>rho = replicate (total_size c) 0, rhou = replicate (total_size c) 0,
      rhov = replicate (total_size c) 0, E = replicate (total_size c) 0,
      rho_new = replicate (total_size c) 0, rhou_new = replicate (total_size c) 0,
      rhov_new = replicate (total_size c) 0, E_new = replicate (total_size c) 0,
      solid = replicate (total_size c) False\<rparr>"

subsection \<open>Initialization\<close>

definition init_cell :: "config \<Rightarrow> nat \<Rightarrow> nat \<Rightarrow> state \<Rightarrow> state" where
  "init_cell c i j s =
     (let x = (real i - 0.5) * dx c;
          y = (real j - 0.5) * dy c
      in if (x - cx c) * (x - cx c) + (y - cy c) * (y - cy c) \<le> radius c * radius c
         then s\<lparr>solid := (solid s)[idx c i j := True],
                rho := (rho s)[idx c i j := rho0 c],
                rhou := (rhou s)[idx c i j := 0.0],
                rhov := (rhov s)[idx c i j := 0.0],
                E := (E s)[idx c i j := p0 c / (gamma_val - 1.0)]\<rparr>
         else s\<lparr>solid := (solid s)[idx c i j := False],
                rho := (rho s)[idx c i j := rho0 c],
                rhou := (rhou s)[idx c i j := rho0 c * u0 c],
                rhov := (rhov s)[idx c i j := rho0 c * v0 c],
                E := (E s)[idx c i j := E0 c]\<rparr>)"

definition init :: "config \<Rightarrow> state" where
  "init c = fold (\<lambda>i. fold (init_cell c i) [0..<Ny c + 2]) [0..<Nx c + 2] (alloc c)"

subsection \<open>Boundary conditions\<close>

text \<open>One iteration of the first boundary loop: inflow on the left, then outflow on the right.\<close>

definition bc_left_right :: "config \<Rightarrow> nat \<Rightarrow> state \<Rightarrow> state" where
  "bc_left_right c j s =
     (let s1 = s\<lparr>rho := (rho s)[idx c 0 j := rho0 c],
                 rhou := (rhou s)[idx c 0 j := rho0 c * u0 c],
                 rhov := (rhov s)[idx c 0 j := rho0 c * v0 c],
                 E := (E s)[idx c 0 j := E0 c]\<rparr>
      in s1\<lparr>rho := (rho s1)[idx c (Nx c + 1) j := rho s1 ! idx c (Nx c) j],
            rhou := (rhou s1)[idx c (Nx c + 1) j := rhou s1 ! idx c (Nx c) j],
            rhov := (rhov s1)[idx c (Nx c + 1) j := rhov s1 ! idx c (Nx c) j],
            E := (E s1)[idx c (Nx c + 1) j := E s1 ! idx c (Nx c) j]\<rparr>)"

text \<open>One iteration of the second boundary loop: reflection at the bottom, then at the top.\<close>

definition bc_bottom_top :: "config \<Rightarrow> nat \<Rightarrow> state \<Rightarrow> state" where
  "bc_bottom_top c i s =
     (let s1 = s\<lparr>rho := (rho s)[idx c i 0 := rho s ! idx c i 1],
                 rhou := (rhou s)[idx c i 0 := rhou s ! idx c i 1],
                 rhov := (rhov s)[idx c i 0 := - (rhov s ! idx c i 1)],
                 E := (E s)[idx c i 0 := E s ! idx c i 1]\<rparr>
      in s1\<lparr>rho := (rho s1)[idx c i (Ny c + 1) := rho s1 ! idx c i (Ny c)],
            rhou := (rhou s1)[idx c i (Ny c + 1) := rhou s1 ! idx c i (Ny c)],
            rhov := (rhov s1)[idx c i (Ny c + 1) := - (rhov s1 ! idx c i (Ny c))],
            E := (E s1)[idx c i (Ny c + 1) := E s1 ! idx c i (Ny c)]\<rparr>)"

definition boundary_left_right :: "config \<Rightarrow> state \<Rightarrow> state" where
  "boundary_left_right c s = fold (bc_left_right c) [0..<Ny c + 2] s"

definition boundary_bottom_top :: "config \<Rightarrow> state \<Rightarrow> state" where
  "boundary_bottom_top c s = fold (bc_bottom_top c) [0..<Nx c + 2] s"

definition apply_boundary :: "config \<Rightarrow> state \<Rightarrow> state" where
  "apply_boundary c s = boundary_bottom_top c (boundary_left_right c s)"

subsection \<open>Interior update\<close>

definition update_cell :: "config \<Rightarrow> nat \<Rightarrow> nat \<Rightarrow> state \<Rightarrow> state" where
  "update_cell c i j s =
     (if solid s ! idx c i j
      then s\<lparr>rho_new := (rho_new s)[idx c i j := rho s ! idx c i j],
             rhou_new := (rhou_new s)[idx c i j := rhou s ! idx c i j],
             rhov_new := (rhov_new s)[idx c i j := rhov s ! idx c i j],
             E_new := (E_new s)[idx c i j := E s ! idx c i j]\<rparr>
      else
        (let fx1 = fluxX (rho s ! idx c (i + 1) j) (rhou s ! idx c (i + 1) j)
                         (rhov s ! idx c (i + 1) j) (E s ! idx c (i + 1) j);
             fx2 = fluxX (rho s ! idx c (i - 1) j) (rhou s ! idx c (i - 1) j)
                         (rhov s ! idx c (i - 1) j) (E s ! idx c (i - 1) j);
             fy1 = fluxY (rho s ! idx c i (j + 1)) (rhou s ! idx c i (j + 1))
                         (rhov s ! idx c i (j + 1)) (E s ! idx c i (j + 1));
             fy2 = fluxY (rho s ! idx c i (j - 1)) (rhou s ! idx c i (j - 1))
                         (rhov s ! idx c i (j - 1)) (E s ! idx c i (j - 1));
             dtdx = dt c / (2 * dx c);
             dtdy = dt c / (2 * dy c)
         in s\<lparr>rho_new := (rho_new s)[idx c i j :=
                  0.25 * (rho s ! idx c (i + 1) j + rho s ! idx c (i - 1) j +
                          rho s ! idx c i (j + 1) + rho s ! idx c i (j - 1)) -
                  dtdx * (frho fx1 - frho fx2) - dtdy * (frho fy1 - frho fy2)],
               rhou_new := (rhou_new s)[idx c i j :=
                  0.25 * (rhou s ! idx c (i + 1) j + rhou s ! idx c (i - 1) j +
                          rhou s ! idx c i (j + 1) + rhou s ! idx c i (j - 1)) -
                  dtdx * (frhou fx1 - frhou fx2) - dtdy * (frhou fy1 - frhou fy2)],
               rhov_new := (rhov_new s)[idx c i j :=
                  0.25 * (rhov s ! idx c (i + 1) j + rhov s ! idx c (i - 1) j +
                          rhov s ! idx c i (j + 1) + rhov s ! idx c i (j - 1)) -
                  dtdx * (frhov fx1 - frhov fx2) - dtdy * (frhov fy1 - frhov fy2)],
               E_new := (E_new s)[idx c i j :=
                  0.25 * (E s ! idx c (i + 1) j + E s ! idx c (i - 1) j +
                          E s ! idx c i (j + 1) + E s ! idx c i (j - 1)) -
                  dtdx * (fE fx1 - fE fx2) - dtdy * (fE fy1 - fE fy2)]\<rparr>))"

definition update_interior :: "config \<Rightarrow> state \<Rightarrow> state" where
  "update_interior c s =
     fold (\<lambda>i. fold (update_cell c i) [1..<Ny c + 1]) [1..<Nx c + 1] s"

subsection \<open>Commit\<close>

definition commit_cell :: "config \<Rightarrow> nat \<Rightarrow> nat \<Rightarrow> state \<Rightarrow> state" where
  "commit_cell c i j s =
     s\<lparr>rho := (rho s)[idx c i j := rho_new s ! idx c i j],
       rhou := (rhou s)[idx c i j := rhou_new s ! idx c i j],
       rhov := (rhov s)[idx c i j := rhov_new s ! idx c i j],
       E := (E s)[idx c i j := E_new s ! idx c i j]\<rparr>"

definition commit :: "config \<Rightarrow> state \<Rightarrow> state" where
  "commit c s = fold (\<lambda>i. fold (commit_cell c i) [1..<Ny c + 1]) [1..<Nx c + 1] s"

subsection \<open>Diagnostics\<close>

definition kinetic_cell :: "config \<Rightarrow> state \<Rightarrow> nat \<Rightarrow> nat \<Rightarrow> real \<Rightarrow> real" where
  "kinetic_cell c s i j total_kinetic =
     (let u = rhou s ! idx c i j / rho s ! idx c i j;
          v = rhov s ! idx c i j / rho s ! idx c i j
      in total_kinetic + 0.5 * rho s ! idx c i j * (u * u + v * v))"

definition total_kinetic :: "config \<Rightarrow> state \<Rightarrow> real" where
  "total_kinetic c s =
     fold (\<lambda>i. fold (kinetic_cell c s i) [1..<Ny c + 1]) [1..<Nx c + 1] 0.0"

subsection \<open>The time-stepping loop\<close>

text \<open>
  One iteration of the loop over \<open>n\<close>. The second component collects the lines printed
  so far, each as the step index and the total kinetic energy it reports.
\<close>

definition time_step ::
  "config \<Rightarrow> nat \<Rightarrow> state \<times> (nat \<times> real) list \<Rightarrow> state \<times> (nat \<times> real) list" where
  "time_step c n st =
     (let s1 = apply_boundary c (fst st);
          s2 = update_interior c s1;
          s3 = commit c s2
      in if n mod 50 = 0
         then (s3, snd st @ [(n, total_kinetic c s3)])
         else (s3, snd st))"

definition time_loop ::
  "config \<Rightarrow> nat \<Rightarrow> state \<times> (nat \<times> real) list \<Rightarrow> state \<times> (nat \<times> real) list" where
  "time_loop c n st = fold (time_step c) [0..<n] st"

definition simulate :: "config \<Rightarrow> state \<times> (nat \<times> real) list" where
  "simulate c = time_loop c (nSteps c) (init c, [])"

subsection \<open>Notions used to state the properties\<close>

text \<open>One step without the printing: boundaries, update, commit.\<close>

definition step :: "config \<Rightarrow> state \<Rightarrow> state" where
  "step c s = commit c (update_interior c (apply_boundary c s))"

text \<open>The conservative state \<open>(rho, rhou, rhov, E)\<close> of one cell, current and next buffer.\<close>

definition cell :: "config \<Rightarrow> state \<Rightarrow> nat \<Rightarrow> nat \<Rightarrow> real \<times> real \<times> real \<times> real" where
  "cell c s i j =
     (rho s ! idx c i j, rhou s ! idx c i j, rhov s ! idx c i j, E s ! idx c i j)"

definition cell_new :: "config \<Rightarrow> state \<Rightarrow> nat \<Rightarrow> nat \<Rightarrow> real \<times> real \<times> real \<times> real" where
  "cell_new c s i j =
     (rho_new s ! idx c i j, rhou_new s ! idx c i j, rhov_new s ! idx c i j,
      E_new s ! idx c i j)"

definition free_stream :: "config \<Rightarrow> real \<times> real \<times> real \<times> real" where
  "free_stream c = (rho0 c, rho0 c * u0 c, rho0 c * v0 c, E0 c)"

text \<open>The reflective rule: a copy with the y-momentum negated.\<close>

definition mirror :: "real \<times> real \<times> real \<times> real \<Rightarrow> real \<times> real \<times> real \<times> real" where
  "mirror q = (case q of (r, ru, rv, e) \<Rightarrow> (r, ru, - rv, e))"

text \<open>The flux vectors of the current state of cell \<open>(i, j)\<close>.\<close>

definition Fx :: "config \<Rightarrow> state \<Rightarrow> nat \<Rightarrow> nat \<Rightarrow> flux" where
  "Fx c s i j =
     fluxX (rho s ! idx c i j) (rhou s ! idx c i j) (rhov s ! idx c i j) (E s ! idx c i j)"

definition Fy :: "config \<Rightarrow> state \<Rightarrow> nat \<Rightarrow> nat \<Rightarrow> flux" where
  "Fy c s i j =
     fluxY (rho s ! idx c i j) (rhou s ! idx c i j) (rhov s ! idx c i j) (E s ! idx c i j)"

text \<open>
  The update formula as the specification writes it, for one conserved quantity: \<open>q\<close>
  selects the quantity's array in the current buffer, \<open>fq\<close> its component of a flux.
\<close>

definition lax_friedrichs ::
  "config \<Rightarrow> state \<Rightarrow> (state \<Rightarrow> real list) \<Rightarrow> (flux \<Rightarrow> real) \<Rightarrow> nat \<Rightarrow> nat \<Rightarrow> real" where
  "lax_friedrichs c s q fq i j =
     1 / 4 * (q s ! idx c (i + 1) j + q s ! idx c (i - 1) j +
              q s ! idx c i (j + 1) + q s ! idx c i (j - 1))
     - dt c / (2 * dx c) * (fq (Fx c s (i + 1) j) - fq (Fx c s (i - 1) j))
     - dt c / (2 * dy c) * (fq (Fy c s i (j + 1)) - fq (Fy c s i (j - 1)))"

text \<open>What one pass of the update loop leaves in the next buffer for cell \<open>(i, j)\<close>.\<close>

definition updated_cell :: "config \<Rightarrow> state \<Rightarrow> nat \<Rightarrow> nat \<Rightarrow> real \<times> real \<times> real \<times> real" where
  "updated_cell c s i j =
     (if solid s ! idx c i j then cell c s i j
      else (lax_friedrichs c s rho frho i j, lax_friedrichs c s rhou frhou i j,
            lax_friedrichs c s rhov frhov i j, lax_friedrichs c s E fE i j))"

text \<open>The state the initializer gives a cell inside the obstacle: gas at rest.\<close>

definition at_rest :: "config \<Rightarrow> real \<times> real \<times> real \<times> real" where
  "at_rest c = (rho0 c, 0, 0, p0 c / (gamma_val - 1))"

text \<open>
  The shape the program's arrays have throughout: a grid with at least one interior cell
  in each direction, and nine vectors of \<^verbatim>\<open>total_size\<close> elements.
\<close>

definition wf_state :: "config \<Rightarrow> state \<Rightarrow> bool" where
  "wf_state c s \<longleftrightarrow>
     0 < Nx c \<and> 0 < Ny c \<and>
     length (rho s) = total_size c \<and> length (rhou s) = total_size c \<and>
     length (rhov s) = total_size c \<and> length (E s) = total_size c \<and>
     length (rho_new s) = total_size c \<and> length (rhou_new s) = total_size c \<and>
     length (rhov_new s) = total_size c \<and> length (E_new s) = total_size c \<and>
     length (solid s) = total_size c"

text \<open>The test of the initializer: the centre of cell \<open>(i, j)\<close> lies in the closed disc.\<close>

definition in_obstacle :: "config \<Rightarrow> nat \<Rightarrow> nat \<Rightarrow> bool" where
  "in_obstacle c i j \<longleftrightarrow>
     (let x = (real i - 0.5) * dx c;
          y = (real j - 0.5) * dy c
      in (x - cx c)\<^sup>2 + (y - cy c)\<^sup>2 \<le> (radius c)\<^sup>2)"

subsection \<open>Concrete configurations\<close>

text \<open>
  The end-to-end scenario of the specification: a 4 by 4 grid on the unit square, no
  obstacle, free stream along x. The obstacle centre is the one of \<^verbatim>\<open>main\<close>.
\<close>

definition scenario_config :: config where
  "scenario_config =
     \<lparr>Nx = 4, Ny = 4, Lx = 1.0, Ly = 1.0, cx = 0.5, cy = 0.5, radius = 0,
      rho0 = 1, u0 = 1, v0 = 0, p0 = 1, nSteps = 1\<rparr>"

text \<open>
  A 3 by 3 grid of unit cells whose free stream has a y-component. The obstacle is the
  unit disc around the centre of cell \<open>(2, 2)\<close>, so the centre of cell \<open>(3, 2)\<close> lies on
  its rim and cell \<open>(1, 1)\<close> lies outside.
\<close>

definition small_config :: config where
  "small_config =
     \<lparr>Nx = 3, Ny = 3, Lx = 3, Ly = 3, cx = 1.5, cy = 1.5, radius = 1,
      rho0 = 1, u0 = 1, v0 = 1, p0 = 1, nSteps = 2\<rparr>"

section \<open>Properties\<close>

subsection \<open>Pressure and fluxes\<close>



subsection \<open>Binary64 arithmetic\<close>

lemmas binary64_eval = binary64_def floor_log2_def round_nearest_even_def Let_def
  power_int_def power_divide fadd_def fsub_def fmul_def fdiv_def

text \<open>
  Known roundings: the doubles nearest to \<open>0.1\<close>, \<open>1.4\<close> and \<open>1 / 3\<close>, and two ties, each
  resolved towards the even significand.
\<close>

lemma binary64_examples:
  "binary64 (1 / 10) = Some (3602879701896397 / 2 ^ 55)"
  "binary64 (14 / 10) = Some (6305039478318694 / 2 ^ 52)"
  "binary64 (- (14 / 10)) = Some (- (6305039478318694 / 2 ^ 52))"
  "binary64 (1 / 3) = Some (6004799503160661 / 2 ^ 54)"
  "binary64 (1 + 1 / 2 ^ 53) = Some 1"
  "binary64 (1 + 3 / 2 ^ 53) = Some (1 + 2 / 2 ^ 52)"
  by (simp_all add: binary64_eval)







subsection \<open>Flat offsets\<close>

lemma flat_offset_inj:
  fixes w :: nat
  assumes "j < w" "j' < w" "i * w + j = i' * w + j'"
  shows "i = i' \<and> j = j'"
proof -
  have "(i * w + j) div w = i" "(i * w + j) mod w = j"
    using assms(1) by simp_all
  moreover have "(i' * w + j') div w = i'" "(i' * w + j') mod w = j'"
    using assms(2) by simp_all
  ultimately show ?thesis
    using assms(3) by simp
qed

lemma idx_eq_iff:
  assumes "j < Ny c + 2" "j' < Ny c + 2"
  shows "idx c i j = idx c i' j' \<longleftrightarrow> i = i' \<and> j = j'"
  using flat_offset_inj [OF assms, of i i'] by (auto simp: idx_def)

lemma idx_less:
  assumes "i < Nx c + 2" "j < Ny c + 2"
  shows "idx c i j < total_size c"
proof -
  have "i * (Ny c + 2) + j < Suc i * (Ny c + 2)"
    using assms by simp
  also have "\<dots> \<le> (Nx c + 2) * (Ny c + 2)"
    using assms by (intro mult_le_mono1) simp
  finally show ?thesis
    by (simp add: idx_def total_size_def)
qed

text \<open>
  Every offset the loops read or write lies inside the vectors, so no access of the model
  is out of range.
\<close>

lemma neighbours_in_range:
  assumes "1 \<le> i" "i \<le> Nx c" "1 \<le> j" "j \<le> Ny c"
  shows "idx c i j < total_size c" "idx c (i + 1) j < total_size c"
    "idx c (i - 1) j < total_size c" "idx c i (j + 1) < total_size c"
    "idx c i (j - 1) < total_size c"
  using assms by (simp_all add: idx_less)

lemma ghost_in_range:
  assumes "i \<le> Nx c + 1" "j \<le> Ny c + 1"
  shows "idx c i j < total_size c" "idx c 0 j < total_size c" "idx c (Nx c) j < total_size c"
    "idx c (Nx c + 1) j < total_size c" "idx c i 0 < total_size c" "idx c i 1 < total_size c"
    "idx c i (Ny c) < total_size c" "idx c i (Ny c + 1) < total_size c"
  using assms by (simp_all add: idx_less)

lemma main_config_total_size: "total_size main_config = 20604"
  by (simp add: total_size_def main_config_def)

subsection \<open>The boundary loops, cell by cell\<close>

lemma wf_bc_left_right: "wf_state c s \<Longrightarrow> wf_state c (bc_left_right c j s)"
  by (simp add: wf_state_def bc_left_right_def Let_def)

lemma frame_bc_left_right:
  "solid (bc_left_right c j s) = solid s"
  "rho_new (bc_left_right c j s) = rho_new s"
  "rhou_new (bc_left_right c j s) = rhou_new s"
  "rhov_new (bc_left_right c j s) = rhov_new s"
  "E_new (bc_left_right c j s) = E_new s"
  by (simp_all add: bc_left_right_def Let_def)

lemma cell_bc_left_right:
  assumes "wf_state c s" "j0 < Ny c + 2" "i < Nx c + 2" "j < Ny c + 2"
  shows "cell c (bc_left_right c j0 s) i j =
    (if j = j0 \<and> i = 0 then free_stream c
     else if j = j0 \<and> i = Nx c + 1 then cell c s (Nx c) j
     else cell c s i j)"
proof -
  have "idx c 0 j0 < total_size c" "idx c (Nx c + 1) j0 < total_size c"
    using assms by (simp_all add: idx_less)
  then show ?thesis
    using assms
    by (simp add: cell_def bc_left_right_def Let_def free_stream_def wf_state_def
        nth_list_update idx_eq_iff)
qed

lemma fold_bc_left_right:
  assumes "wf_state c s" "\<forall>j0\<in>set js. j0 < Ny c + 2" "i < Nx c + 2" "j < Ny c + 2"
  shows "cell c (fold (bc_left_right c) js s) i j =
    (if j \<in> set js \<and> i = 0 then free_stream c
     else if j \<in> set js \<and> i = Nx c + 1 then cell c s (Nx c) j
     else cell c s i j)"
  using assms
proof (induction js arbitrary: s)
  case Nil
  then show ?case by simp
next
  case (Cons j0 js)
  have nx: "0 < Nx c" using Cons.prems(1) by (simp add: wf_state_def)
  have wf: "wf_state c (bc_left_right c j0 s)"
    using Cons.prems(1) by (rule wf_bc_left_right)
  have "cell c (fold (bc_left_right c) js (bc_left_right c j0 s)) i j =
    (if j \<in> set js \<and> i = 0 then free_stream c
     else if j \<in> set js \<and> i = Nx c + 1 then cell c (bc_left_right c j0 s) (Nx c) j
     else cell c (bc_left_right c j0 s) i j)"
    using Cons.IH [OF wf] Cons.prems by simp
  then show ?case
    using Cons.prems nx by (simp add: cell_bc_left_right)
qed

lemma wf_bc_bottom_top: "wf_state c s \<Longrightarrow> wf_state c (bc_bottom_top c i s)"
  by (simp add: wf_state_def bc_bottom_top_def Let_def)

lemma frame_bc_bottom_top:
  "solid (bc_bottom_top c i s) = solid s"
  "rho_new (bc_bottom_top c i s) = rho_new s"
  "rhou_new (bc_bottom_top c i s) = rhou_new s"
  "rhov_new (bc_bottom_top c i s) = rhov_new s"
  "E_new (bc_bottom_top c i s) = E_new s"
  by (simp_all add: bc_bottom_top_def Let_def)

lemma cell_bc_bottom_top:
  assumes "wf_state c s" "i0 < Nx c + 2" "i < Nx c + 2" "j < Ny c + 2"
  shows "cell c (bc_bottom_top c i0 s) i j =
    (if i = i0 \<and> j = 0 then mirror (cell c s i 1)
     else if i = i0 \<and> j = Ny c + 1 then mirror (cell c s i (Ny c))
     else cell c s i j)"
proof -
  have "idx c i0 0 < total_size c" "idx c i0 (Ny c + 1) < total_size c"
    using assms by (simp_all add: idx_less)
  moreover have "0 < Ny c"
    using assms(1) by (simp add: wf_state_def)
  ultimately show ?thesis
    using assms
    by (simp add: cell_def bc_bottom_top_def Let_def mirror_def wf_state_def
        nth_list_update idx_eq_iff)
qed

lemma fold_bc_bottom_top:
  assumes "wf_state c s" "\<forall>i0\<in>set is. i0 < Nx c + 2" "i < Nx c + 2" "j < Ny c + 2"
  shows "cell c (fold (bc_bottom_top c) is s) i j =
    (if i \<in> set is \<and> j = 0 then mirror (cell c s i 1)
     else if i \<in> set is \<and> j = Ny c + 1 then mirror (cell c s i (Ny c))
     else cell c s i j)"
  using assms
proof (induction "is" arbitrary: s)
  case Nil
  then show ?case by simp
next
  case (Cons i0 "is")
  have ny: "0 < Ny c" using Cons.prems(1) by (simp add: wf_state_def)
  have wf: "wf_state c (bc_bottom_top c i0 s)"
    using Cons.prems(1) by (rule wf_bc_bottom_top)
  have "cell c (fold (bc_bottom_top c) is (bc_bottom_top c i0 s)) i j =
    (if i \<in> set is \<and> j = 0 then mirror (cell c (bc_bottom_top c i0 s) i 1)
     else if i \<in> set is \<and> j = Ny c + 1 then mirror (cell c (bc_bottom_top c i0 s) i (Ny c))
     else cell c (bc_bottom_top c i0 s) i j)"
    using Cons.IH [OF wf] Cons.prems by simp
  then show ?case
    using Cons.prems ny by (simp add: cell_bc_bottom_top)
qed

subsection \<open>Nested loops that write one cell per iteration\<close>

lemma fold_row_writes:
  assumes body: "\<And>s i0 j0. P s \<Longrightarrow> i0 < m \<Longrightarrow> j0 < n \<Longrightarrow>
      P (b i0 j0 s) \<and> v (b i0 j0 s) = v s \<and>
      (\<forall>i<m. \<forall>j<n. g (b i0 j0 s) i j = (if i = i0 \<and> j = j0 then v s i j else g s i j))"
    and "P s" "i0 < m" "\<forall>j0\<in>set js. j0 < n"
  shows "P (fold (b i0) js s) \<and> v (fold (b i0) js s) = v s \<and>
    (\<forall>i<m. \<forall>j<n. g (fold (b i0) js s) i j =
      (if i = i0 \<and> j \<in> set js then v s i j else g s i j))"
  using assms(2-)
proof (induction js arbitrary: s)
  case Nil
  then show ?case by simp
next
  case (Cons j0 js)
  let ?s = "b i0 j0 s"
  have j0: "j0 < n" and js: "\<forall>j0\<in>set js. j0 < n"
    using Cons.prems by simp_all
  note b = body [OF Cons.prems(1) \<open>i0 < m\<close> j0]
  have P1: "P ?s" and v1: "v ?s = v s"
    using b by simp_all
  note IH = Cons.IH [OF P1 \<open>i0 < m\<close> js]
  have "g (fold (b i0) js ?s) i j = (if i = i0 \<and> j \<in> set (j0 # js) then v s i j else g s i j)"
    if "i < m" "j < n" for i j
  proof -
    have "g ?s i j = (if i = i0 \<and> j = j0 then v s i j else g s i j)"
      using b that by simp
    moreover have "g (fold (b i0) js ?s) i j =
        (if i = i0 \<and> j \<in> set js then v s i j else g ?s i j)"
      using IH that v1 by simp
    ultimately show ?thesis
      by auto
  qed
  then show ?case
    using IH v1 by simp
qed

lemma fold_grid_writes:
  assumes body: "\<And>s i0 j0. P s \<Longrightarrow> i0 < m \<Longrightarrow> j0 < n \<Longrightarrow>
      P (b i0 j0 s) \<and> v (b i0 j0 s) = v s \<and>
      (\<forall>i<m. \<forall>j<n. g (b i0 j0 s) i j = (if i = i0 \<and> j = j0 then v s i j else g s i j))"
    and "P s" "\<forall>i0\<in>set is. i0 < m" "\<forall>j0\<in>set js. j0 < n"
  shows "P (fold (\<lambda>i. fold (b i) js) is s) \<and> v (fold (\<lambda>i. fold (b i) js) is s) = v s \<and>
    (\<forall>i<m. \<forall>j<n. g (fold (\<lambda>i. fold (b i) js) is s) i j =
      (if i \<in> set is \<and> j \<in> set js then v s i j else g s i j))"
  using assms(2-)
proof (induction "is" arbitrary: s)
  case Nil
  then show ?case by simp
next
  case (Cons i0 "is")
  let ?s = "fold (b i0) js s"
  have i0: "i0 < m" and "is": "\<forall>i0\<in>set is. i0 < m"
    using Cons.prems by simp_all
  note row = fold_row_writes [of P m n b v g, OF body Cons.prems(1) i0 Cons.prems(3)]
  have P1: "P ?s" and v1: "v ?s = v s"
    using row by simp_all
  note IH = Cons.IH [OF P1 "is" Cons.prems(3)]
  have "g (fold (\<lambda>i. fold (b i) js) is ?s) i j =
      (if i \<in> set (i0 # is) \<and> j \<in> set js then v s i j else g s i j)"
    if "i < m" "j < n" for i j
  proof -
    have "g ?s i j = (if i = i0 \<and> j \<in> set js then v s i j else g s i j)"
      using row that by simp
    moreover have "g (fold (\<lambda>i. fold (b i) js) is ?s) i j =
        (if i \<in> set is \<and> j \<in> set js then v s i j else g ?s i j)"
      using IH that v1 by simp
    ultimately show ?thesis
      by auto
  qed
  then show ?case
    using IH v1 by simp
qed

subsection \<open>Interior update and commit, cell by cell\<close>

lemma updated_cell_cong:
  assumes "rho s' = rho s" "rhou s' = rhou s" "rhov s' = rhov s" "E s' = E s"
    "solid s' = solid s"
  shows "updated_cell c s' = updated_cell c s"
  using assms by (simp add: updated_cell_def lax_friedrichs_def Fx_def Fy_def cell_def fun_eq_iff)

lemma wf_update_cell: "wf_state c s \<Longrightarrow> wf_state c (update_cell c i j s)"
  by (simp add: wf_state_def update_cell_def Let_def)

lemma frame_update_cell:
  "solid (update_cell c i j s) = solid s"
  "rho (update_cell c i j s) = rho s"
  "rhou (update_cell c i j s) = rhou s"
  "rhov (update_cell c i j s) = rhov s"
  "E (update_cell c i j s) = E s"
  by (simp_all add: update_cell_def Let_def)

lemma cell_new_update_cell:
  assumes "wf_state c s" "i0 < Nx c + 2" "j0 < Ny c + 2" "i < Nx c + 2" "j < Ny c + 2"
  shows "cell_new c (update_cell c i0 j0 s) i j =
    (if i = i0 \<and> j = j0 then updated_cell c s i j else cell_new c s i j)"
proof -
  have "idx c i0 j0 < total_size c"
    using assms by (simp add: idx_less)
  then show ?thesis
    using assms
    by (simp add: cell_new_def update_cell_def updated_cell_def lax_friedrichs_def
        Fx_def Fy_def cell_def Let_def wf_state_def nth_list_update idx_eq_iff)
qed

lemma update_interior_effect:
  assumes "wf_state c s"
  shows "wf_state c (update_interior c s)"
    and "rho (update_interior c s) = rho s"
    and "rhou (update_interior c s) = rhou s"
    and "rhov (update_interior c s) = rhov s"
    and "E (update_interior c s) = E s"
    and "solid (update_interior c s) = solid s"
    and "i < Nx c + 2 \<Longrightarrow> j < Ny c + 2 \<Longrightarrow>
      cell_new c (update_interior c s) i j =
        (if 1 \<le> i \<and> i \<le> Nx c \<and> 1 \<le> j \<and> j \<le> Ny c then updated_cell c s i j
         else cell_new c s i j)"
proof -
  let ?P = "\<lambda>s'. wf_state c s' \<and> rho s' = rho s \<and> rhou s' = rhou s \<and> rhov s' = rhov s \<and>
    E s' = E s \<and> solid s' = solid s"
  have body: "?P (update_cell c i0 j0 s') \<and>
      updated_cell c (update_cell c i0 j0 s') = updated_cell c s' \<and>
      (\<forall>i<Nx c + 2. \<forall>j<Ny c + 2. cell_new c (update_cell c i0 j0 s') i j =
        (if i = i0 \<and> j = j0 then updated_cell c s' i j else cell_new c s' i j))"
    if "?P s'" "i0 < Nx c + 2" "j0 < Ny c + 2" for s' i0 j0
    using that
    by (simp add: wf_update_cell frame_update_cell cell_new_update_cell
        updated_cell_cong [of "update_cell c i0 j0 s'" s'])
  have "?P (update_interior c s) \<and> updated_cell c (update_interior c s) = updated_cell c s \<and>
    (\<forall>i<Nx c + 2. \<forall>j<Ny c + 2. cell_new c (update_interior c s) i j =
      (if i \<in> set [1..<Nx c + 1] \<and> j \<in> set [1..<Ny c + 1] then updated_cell c s i j
       else cell_new c s i j))"
    unfolding update_interior_def
    by (rule fold_grid_writes [where P = ?P and b = "update_cell c", OF body])
      (use assms in auto)
  then show "wf_state c (update_interior c s)"
    and "rho (update_interior c s) = rho s"
    and "rhou (update_interior c s) = rhou s"
    and "rhov (update_interior c s) = rhov s"
    and "E (update_interior c s) = E s"
    and "solid (update_interior c s) = solid s"
    and "i < Nx c + 2 \<Longrightarrow> j < Ny c + 2 \<Longrightarrow>
      cell_new c (update_interior c s) i j =
        (if 1 \<le> i \<and> i \<le> Nx c \<and> 1 \<le> j \<and> j \<le> Ny c then updated_cell c s i j
         else cell_new c s i j)"
    by (simp_all add: Suc_le_eq less_Suc_eq_le)
qed

lemma wf_commit_cell: "wf_state c s \<Longrightarrow> wf_state c (commit_cell c i j s)"
  by (simp add: wf_state_def commit_cell_def)

lemma frame_commit_cell:
  "solid (commit_cell c i j s) = solid s"
  "rho_new (commit_cell c i j s) = rho_new s"
  "rhou_new (commit_cell c i j s) = rhou_new s"
  "rhov_new (commit_cell c i j s) = rhov_new s"
  "E_new (commit_cell c i j s) = E_new s"
  by (simp_all add: commit_cell_def)

lemma cell_commit_cell:
  assumes "wf_state c s" "i0 < Nx c + 2" "j0 < Ny c + 2" "i < Nx c + 2" "j < Ny c + 2"
  shows "cell c (commit_cell c i0 j0 s) i j =
    (if i = i0 \<and> j = j0 then cell_new c s i j else cell c s i j)"
proof -
  have "idx c i0 j0 < total_size c"
    using assms by (simp add: idx_less)
  then show ?thesis
    using assms
    by (simp add: cell_new_def commit_cell_def cell_def wf_state_def nth_list_update idx_eq_iff)
qed

lemma commit_effect:
  assumes "wf_state c s"
  shows "wf_state c (commit c s)"
    and "solid (commit c s) = solid s"
    and "i < Nx c + 2 \<Longrightarrow> j < Ny c + 2 \<Longrightarrow>
      cell c (commit c s) i j =
        (if 1 \<le> i \<and> i \<le> Nx c \<and> 1 \<le> j \<and> j \<le> Ny c then cell_new c s i j
         else cell c s i j)"
proof -
  let ?P = "\<lambda>s'. wf_state c s' \<and> solid s' = solid s"
  have body: "?P (commit_cell c i0 j0 s') \<and>
      cell_new c (commit_cell c i0 j0 s') = cell_new c s' \<and>
      (\<forall>i<Nx c + 2. \<forall>j<Ny c + 2. cell c (commit_cell c i0 j0 s') i j =
        (if i = i0 \<and> j = j0 then cell_new c s' i j else cell c s' i j))"
    if "?P s'" "i0 < Nx c + 2" "j0 < Ny c + 2" for s' i0 j0
    using that
    by (simp add: wf_commit_cell frame_commit_cell cell_commit_cell cell_new_def fun_eq_iff)
  have "?P (commit c s) \<and> cell_new c (commit c s) = cell_new c s \<and>
    (\<forall>i<Nx c + 2. \<forall>j<Ny c + 2. cell c (commit c s) i j =
      (if i \<in> set [1..<Nx c + 1] \<and> j \<in> set [1..<Ny c + 1] then cell_new c s i j
       else cell c s i j))"
    unfolding commit_def
    by (rule fold_grid_writes [where P = ?P and b = "commit_cell c", OF body])
      (use assms in auto)
  then show "wf_state c (commit c s)"
    and "solid (commit c s) = solid s"
    and "i < Nx c + 2 \<Longrightarrow> j < Ny c + 2 \<Longrightarrow>
      cell c (commit c s) i j =
        (if 1 \<le> i \<and> i \<le> Nx c \<and> 1 \<le> j \<and> j \<le> Ny c then cell_new c s i j
         else cell c s i j)"
    by (simp_all add: Suc_le_eq less_Suc_eq_le)
qed

subsection \<open>Whole passes and one step\<close>

lemma boundary_left_right_effect:
  assumes "wf_state c s"
  shows "wf_state c (boundary_left_right c s)"
    and "solid (boundary_left_right c s) = solid s"
    and "i < Nx c + 2 \<Longrightarrow> j < Ny c + 2 \<Longrightarrow>
      cell c (boundary_left_right c s) i j =
        (if i = 0 then free_stream c
         else if i = Nx c + 1 then cell c s (Nx c) j
         else cell c s i j)"
proof -
  show "wf_state c (boundary_left_right c s)"
    unfolding boundary_left_right_def
    by (rule fold_invariant [where Q = "\<lambda>_. True"]) (simp_all add: assms wf_bc_left_right)
  show "solid (boundary_left_right c s) = solid s"
    unfolding boundary_left_right_def
    by (rule fold_invariant [where Q = "\<lambda>_. True"]) (simp_all add: frame_bc_left_right)
  show "cell c (boundary_left_right c s) i j =
        (if i = 0 then free_stream c
         else if i = Nx c + 1 then cell c s (Nx c) j
         else cell c s i j)" if "i < Nx c + 2" "j < Ny c + 2"
  proof -
    have "cell c (boundary_left_right c s) i j =
        (if j \<in> set [0..<Ny c + 2] \<and> i = 0 then free_stream c
         else if j \<in> set [0..<Ny c + 2] \<and> i = Nx c + 1 then cell c s (Nx c) j
         else cell c s i j)"
      unfolding boundary_left_right_def
      by (rule fold_bc_left_right [OF assms _ that]) simp
    also have "\<dots> = (if i = 0 then free_stream c
         else if i = Nx c + 1 then cell c s (Nx c) j
         else cell c s i j)"
      using that by (simp del: upt_Suc)
    finally show ?thesis .
  qed
qed

lemma boundary_bottom_top_effect:
  assumes "wf_state c s"
  shows "wf_state c (boundary_bottom_top c s)"
    and "solid (boundary_bottom_top c s) = solid s"
    and "i < Nx c + 2 \<Longrightarrow> j < Ny c + 2 \<Longrightarrow>
      cell c (boundary_bottom_top c s) i j =
        (if j = 0 then mirror (cell c s i 1)
         else if j = Ny c + 1 then mirror (cell c s i (Ny c))
         else cell c s i j)"
proof -
  show "wf_state c (boundary_bottom_top c s)"
    unfolding boundary_bottom_top_def
    by (rule fold_invariant [where Q = "\<lambda>_. True"]) (simp_all add: assms wf_bc_bottom_top)
  show "solid (boundary_bottom_top c s) = solid s"
    unfolding boundary_bottom_top_def
    by (rule fold_invariant [where Q = "\<lambda>_. True"]) (simp_all add: frame_bc_bottom_top)
  show "cell c (boundary_bottom_top c s) i j =
        (if j = 0 then mirror (cell c s i 1)
         else if j = Ny c + 1 then mirror (cell c s i (Ny c))
         else cell c s i j)" if "i < Nx c + 2" "j < Ny c + 2"
  proof -
    have "cell c (boundary_bottom_top c s) i j =
        (if i \<in> set [0..<Nx c + 2] \<and> j = 0 then mirror (cell c s i 1)
         else if i \<in> set [0..<Nx c + 2] \<and> j = Ny c + 1 then mirror (cell c s i (Ny c))
         else cell c s i j)"
      unfolding boundary_bottom_top_def
      by (rule fold_bc_bottom_top [OF assms _ that]) simp
    also have "\<dots> = (if j = 0 then mirror (cell c s i 1)
         else if j = Ny c + 1 then mirror (cell c s i (Ny c))
         else cell c s i j)"
      using that by (simp del: upt_Suc)
    finally show ?thesis .
  qed
qed

lemma apply_boundary_effect:
  assumes "wf_state c s"
  shows "wf_state c (apply_boundary c s)"
    and "solid (apply_boundary c s) = solid s"
    and "i < Nx c + 2 \<Longrightarrow> j < Ny c + 2 \<Longrightarrow>
      cell c (apply_boundary c s) i j =
        (if j = 0 then mirror (cell c (boundary_left_right c s) i 1)
         else if j = Ny c + 1 then mirror (cell c (boundary_left_right c s) i (Ny c))
         else cell c (boundary_left_right c s) i j)"
  using assms
  by (simp_all add: apply_boundary_def boundary_left_right_effect boundary_bottom_top_effect)

lemma step_effect:
  assumes "wf_state c s"
  shows "wf_state c (step c s)"
    and "solid (step c s) = solid s"
    and "i < Nx c + 2 \<Longrightarrow> j < Ny c + 2 \<Longrightarrow>
      cell c (step c s) i j =
        (if 1 \<le> i \<and> i \<le> Nx c \<and> 1 \<le> j \<and> j \<le> Ny c
         then updated_cell c (apply_boundary c s) i j
         else cell c (apply_boundary c s) i j)"
proof -
  let ?s1 = "apply_boundary c s"
  let ?s2 = "update_interior c ?s1"
  have wf1: "wf_state c ?s1" using assms by (rule apply_boundary_effect)
  then have wf2: "wf_state c ?s2" by (rule update_interior_effect)
  show "wf_state c (step c s)"
    unfolding step_def using wf2 by (rule commit_effect)
  show "solid (step c s) = solid s"
    unfolding step_def
    by (simp add: commit_effect [OF wf2] update_interior_effect [OF wf1]
        apply_boundary_effect [OF assms])
  have cur: "cell c ?s2 i j = cell c ?s1 i j" for i j
    by (simp add: cell_def update_interior_effect [OF wf1])
  show "cell c (step c s) i j =
        (if 1 \<le> i \<and> i \<le> Nx c \<and> 1 \<le> j \<and> j \<le> Ny c
         then updated_cell c (apply_boundary c s) i j
         else cell c (apply_boundary c s) i j)" if "i < Nx c + 2" "j < Ny c + 2"
    unfolding step_def
    using that by (simp add: commit_effect(3) [OF wf2] update_interior_effect(7) [OF wf1] cur)
qed

subsection \<open>Initialization, cell by cell\<close>

lemma init_effect:
  shows "i < Nx c + 2 \<Longrightarrow> j < Ny c + 2 \<Longrightarrow>
      solid (init c) ! idx c i j \<longleftrightarrow> in_obstacle c i j"
    and "i < Nx c + 2 \<Longrightarrow> j < Ny c + 2 \<Longrightarrow>
      cell c (init c) i j = (if in_obstacle c i j then at_rest c else free_stream c)"
    and "length (rho (init c)) = total_size c \<and> length (rhou (init c)) = total_size c \<and>
      length (rhov (init c)) = total_size c \<and> length (E (init c)) = total_size c \<and>
      length (rho_new (init c)) = total_size c \<and> length (rhou_new (init c)) = total_size c \<and>
      length (rhov_new (init c)) = total_size c \<and> length (E_new (init c)) = total_size c \<and>
      length (solid (init c)) = total_size c"
proof -
  let ?P = "\<lambda>s. length (rho s) = total_size c \<and> length (rhou s) = total_size c \<and>
      length (rhov s) = total_size c \<and> length (E s) = total_size c \<and>
      length (rho_new s) = total_size c \<and> length (rhou_new s) = total_size c \<and>
      length (rhov_new s) = total_size c \<and> length (E_new s) = total_size c \<and>
      length (solid s) = total_size c"
  let ?g = "\<lambda>s i j. (solid s ! idx c i j, cell c s i j)"
  let ?v = "\<lambda>(s::state) i j. (in_obstacle c i j,
      if in_obstacle c i j then at_rest c else free_stream c)"
  have body: "?P (init_cell c i0 j0 s) \<and> ?v (init_cell c i0 j0 s) = ?v s \<and>
      (\<forall>i<Nx c + 2. \<forall>j<Ny c + 2. ?g (init_cell c i0 j0 s) i j =
        (if i = i0 \<and> j = j0 then ?v s i j else ?g s i j))"
    if "?P s" "i0 < Nx c + 2" "j0 < Ny c + 2" for s i0 j0
  proof -
    have "idx c i0 j0 < total_size c"
      using that by (simp add: idx_less)
    then show ?thesis
      using that
      by (simp add: init_cell_def in_obstacle_def Let_def cell_def at_rest_def free_stream_def
          power2_eq_square nth_list_update idx_eq_iff)
  qed
  have "?P (init c) \<and> ?v (init c) = ?v (alloc c) \<and>
    (\<forall>i<Nx c + 2. \<forall>j<Ny c + 2. ?g (init c) i j =
      (if i \<in> set [0..<Nx c + 2] \<and> j \<in> set [0..<Ny c + 2] then ?v (alloc c) i j
       else ?g (alloc c) i j))"
    unfolding init_def
    by (rule fold_grid_writes [where P = ?P and b = "init_cell c" and v = ?v and g = ?g,
          OF body]) (simp_all add: alloc_def del: upt_Suc)
  then show "i < Nx c + 2 \<Longrightarrow> j < Ny c + 2 \<Longrightarrow>
      solid (init c) ! idx c i j \<longleftrightarrow> in_obstacle c i j"
    and "i < Nx c + 2 \<Longrightarrow> j < Ny c + 2 \<Longrightarrow>
      cell c (init c) i j = (if in_obstacle c i j then at_rest c else free_stream c)"
    and "?P (init c)"
    by (simp_all del: upt_Suc)
qed

lemma wf_init: "0 < Nx c \<Longrightarrow> 0 < Ny c \<Longrightarrow> wf_state c (init c)"
  using init_effect(3) [of c] by (simp add: wf_state_def)

subsection \<open>Diagnostics and the time loop\<close>

lemma fold_add_sum:
  fixes f :: "nat \<Rightarrow> real"
  shows "fold (\<lambda>j acc. acc + f j) [a..<b] z = z + (\<Sum>j = a..<b. f j)"
proof -
  have "fold (\<lambda>j acc. acc + f j) js z = z + sum_list (map f js)" for js
    by (induction js arbitrary: z) (simp_all add: add.assoc)
  then show ?thesis
    by (simp add: interv_sum_list_conv_sum_set_nat)
qed

lemma fold_fold_add_sum:
  fixes f :: "nat \<Rightarrow> nat \<Rightarrow> real"
  shows "fold (\<lambda>i. fold (\<lambda>j acc. acc + f i j) [a..<b]) [m..<n] z =
    z + (\<Sum>i = m..<n. \<Sum>j = a..<b. f i j)"
proof -
  have "fold (\<lambda>i. fold (\<lambda>j acc. acc + f i j) [a..<b]) is z =
      z + sum_list (map (\<lambda>i. \<Sum>j = a..<b. f i j) is)" for "is"
    by (induction "is" arbitrary: z) (simp_all add: fold_add_sum add.assoc)
  then show ?thesis
    by (simp add: interv_sum_list_conv_sum_set_nat)
qed

lemma total_kinetic_sum:
  "total_kinetic c s =
    (\<Sum>i = 1..Nx c. \<Sum>j = 1..Ny c.
      0.5 * rho s ! idx c i j *
        ((rhou s ! idx c i j / rho s ! idx c i j) * (rhou s ! idx c i j / rho s ! idx c i j) +
         (rhov s ! idx c i j / rho s ! idx c i j) * (rhov s ! idx c i j / rho s ! idx c i j)))"
proof -
  have "{1..<Nx c + 1} = {1..Nx c}" "{1..<Ny c + 1} = {1..Ny c}"
    by auto
  then show ?thesis
    unfolding total_kinetic_def kinetic_cell_def Let_def
    by (simp add: fold_fold_add_sum del: upt_Suc)
qed

lemma time_loop_Suc: "time_loop c (Suc n) st = time_step c n (time_loop c n st)"
  by (simp add: time_loop_def)

lemma fst_time_step: "fst (time_step c n st) = step c (fst st)"
  by (simp add: time_step_def step_def Let_def)

lemma snd_time_step:
  "snd (time_step c n st) =
    (if n mod 50 = 0 then snd st @ [(n, total_kinetic c (step c (fst st)))] else snd st)"
  by (simp add: time_step_def step_def Let_def)

lemma fst_time_loop: "fst (time_loop c n (s, out)) = (step c ^^ n) s"
  by (induction n) (simp_all add: time_loop_Suc fst_time_step, simp add: time_loop_def)

lemma snd_time_loop:
  "snd (time_loop c n (s, out)) =
    out @ map (\<lambda>k. (k, total_kinetic c ((step c ^^ Suc k) s))) (filter (\<lambda>k. k mod 50 = 0) [0..<n])"
  by (induction n) (simp_all add: time_loop_Suc snd_time_step fst_time_loop, simp add: time_loop_def)

lemma wf_steps: "wf_state c s \<Longrightarrow> wf_state c ((step c ^^ n) s)"
  by (induction n) (simp_all add: step_effect)

lemma solid_steps: "wf_state c s \<Longrightarrow> solid ((step c ^^ n) s) = solid s"
  by (induction n) (simp_all add: step_effect wf_steps)

subsection \<open>Solid cells\<close>

lemma solid_cell_step:
  assumes "wf_state c s" "1 \<le> i" "i \<le> Nx c" "1 \<le> j" "j \<le> Ny c" "solid s ! idx c i j"
  shows "cell_new c (update_interior c (apply_boundary c s)) i j = cell c s i j"
    and "cell c (step c s) i j = cell c s i j"
proof -
  let ?s1 = "apply_boundary c s"
  have wf1: "wf_state c ?s1"
    using assms(1) by (rule apply_boundary_effect)
  have range: "i < Nx c + 2" "j < Ny c + 2"
    using assms by simp_all
  have "cell c ?s1 i j = cell c (boundary_left_right c s) i j"
    using assms by (simp add: apply_boundary_effect(3) [OF assms(1) range])
  also have "\<dots> = cell c s i j"
    using assms by (simp add: boundary_left_right_effect(3) [OF assms(1) range])
  finally have bc: "cell c ?s1 i j = cell c s i j" .
  have upd: "updated_cell c ?s1 i j = cell c s i j"
    using assms(6) by (simp add: updated_cell_def apply_boundary_effect(2) [OF assms(1)] bc)
  show "cell_new c (update_interior c ?s1) i j = cell c s i j"
    using assms by (simp add: update_interior_effect(7) [OF wf1 range] upd)
  show "cell c (step c s) i j = cell c s i j"
    using assms by (simp add: step_effect(3) [OF assms(1) range] upd)
qed

subsection \<open>The small configuration\<close>

lemma small_config_simps:
  "Nx small_config = 3" "Ny small_config = 3" "dx small_config = 1" "dy small_config = 1"
  "cx small_config = 3 / 2" "cy small_config = 3 / 2" "radius small_config = 1"
  "rho0 small_config = 1" "u0 small_config = 1" "v0 small_config = 1" "p0 small_config = 1"
  "E0 small_config = 7 / 2"
  by (simp_all add: small_config_def dx_def dy_def E0_def gamma_val_def)

lemma wf_init_small: "wf_state small_config (init small_config)"
  by (rule wf_init) (simp_all add: small_config_simps)

subsection \<open>Ghost cells\<close>

lemma left_column_boundary:
  assumes "wf_state c s" "j \<le> Ny c + 1"
  shows "cell c (apply_boundary c s) 0 j =
    (if j = 0 \<or> j = Ny c + 1 then mirror (free_stream c) else free_stream c)"
proof -
  have ny: "0 < Ny c"
    using assms(1) by (simp add: wf_state_def)
  have "cell c (boundary_left_right c s) 0 j' = free_stream c" if "j' < Ny c + 2" for j'
    using that by (simp add: boundary_left_right_effect(3) [OF assms(1)])
  then show ?thesis
    using assms ny by (simp add: apply_boundary_effect(3) [OF assms(1)])
qed

lemma ghost_cell_step:
  assumes "wf_state c s" "i < Nx c + 2" "j < Ny c + 2" "i = 0 \<or> i = Nx c + 1 \<or> j = 0 \<or> j = Ny c + 1"
  shows "cell c (update_interior c (apply_boundary c s)) i j = cell c (apply_boundary c s) i j"
    and "cell c (step c s) i j = cell c (apply_boundary c s) i j"
proof -
  have wf1: "wf_state c (apply_boundary c s)"
    using assms(1) by (rule apply_boundary_effect)
  show "cell c (update_interior c (apply_boundary c s)) i j = cell c (apply_boundary c s) i j"
    by (simp add: cell_def update_interior_effect [OF wf1])
  show "cell c (step c s) i j = cell c (apply_boundary c s) i j"
    using assms by (auto simp: step_effect(3) [OF assms(1)])
qed

lemma mirror_free_stream:
  "mirror (free_stream c) = (rho0 c, rho0 c * u0 c, - (rho0 c * v0 c), E0 c)"
  by (simp add: mirror_def free_stream_def)

lemma ghost_rows_boundary:
  assumes "wf_state c s" "i \<le> Nx c + 1"
  shows "cell c (apply_boundary c s) i 0 = mirror (cell c (apply_boundary c s) i 1)"
    and "cell c (apply_boundary c s) i (Ny c + 1) = mirror (cell c (apply_boundary c s) i (Ny c))"
    and "cell c (apply_boundary c s) i 0 = mirror (cell c (boundary_left_right c s) i 1)"
    and "cell c (apply_boundary c s) i (Ny c + 1) =
      mirror (cell c (boundary_left_right c s) i (Ny c))"
proof -
  have ny: "0 < Ny c"
    using assms(1) by (simp add: wf_state_def)
  show "cell c (apply_boundary c s) i 0 = mirror (cell c (apply_boundary c s) i 1)"
    and "cell c (apply_boundary c s) i (Ny c + 1) = mirror (cell c (apply_boundary c s) i (Ny c))"
    and "cell c (apply_boundary c s) i 0 = mirror (cell c (boundary_left_right c s) i 1)"
    and "cell c (apply_boundary c s) i (Ny c + 1) =
      mirror (cell c (boundary_left_right c s) i (Ny c))"
    using assms(2) ny by (simp_all add: apply_boundary_effect(3) [OF assms(1)])
qed

subsection \<open>Fluid cells\<close>

lemma updated_cell_fluid:
  assumes "wf_state c s" "1 \<le> i" "i \<le> Nx c" "1 \<le> j" "j \<le> Ny c" "\<not> solid s ! idx c i j"
  shows "cell_new c (update_interior c s) i j =
    (lax_friedrichs c s rho frho i j, lax_friedrichs c s rhou frhou i j,
     lax_friedrichs c s rhov frhov i j, lax_friedrichs c s E fE i j)"
  using assms by (simp add: update_interior_effect(7) [OF assms(1)] updated_cell_def)

lemma lax_friedrichs_own_cell:
  assumes "wf_state c s" "1 \<le> i" "i \<le> Nx c" "1 \<le> j" "j \<le> Ny c"
    and "s' = s\<lparr>rho := (rho s)[idx c i j := a], rhou := (rhou s)[idx c i j := b],
      rhov := (rhov s)[idx c i j := d], E := (E s)[idx c i j := e]\<rparr>"
  shows "wf_state c s'" and "solid s' = solid s"
    and "lax_friedrichs c s' rho frho i j = lax_friedrichs c s rho frho i j"
    and "lax_friedrichs c s' rhou frhou i j = lax_friedrichs c s rhou frhou i j"
    and "lax_friedrichs c s' rhov frhov i j = lax_friedrichs c s rhov frhov i j"
    and "lax_friedrichs c s' E fE i j = lax_friedrichs c s E fE i j"
proof -
  show "wf_state c s'" and "solid s' = solid s"
    using assms by (simp_all add: wf_state_def)
  have ne: "idx c i j \<noteq> idx c (i + 1) j" "idx c i j \<noteq> idx c (i - 1) j"
    "idx c i j \<noteq> idx c i (j + 1)" "idx c i j \<noteq> idx c i (j - 1)"
    using assms(2-5) by (simp_all add: idx_eq_iff)
  then show "lax_friedrichs c s' rho frho i j = lax_friedrichs c s rho frho i j"
    and "lax_friedrichs c s' rhou frhou i j = lax_friedrichs c s rhou frhou i j"
    and "lax_friedrichs c s' rhov frhov i j = lax_friedrichs c s rhov frhov i j"
    and "lax_friedrichs c s' E fE i j = lax_friedrichs c s E fE i j"
    by (simp_all add: assms(6) lax_friedrichs_def Fx_def Fy_def)
qed

lemma init_small_cells:
  "cell small_config (init small_config) 2 1 = (1, 0, 0, 5 / 2)"
  "cell small_config (init small_config) 0 1 = (1, 1, 1, 7 / 2)"
  "cell small_config (init small_config) 1 2 = (1, 0, 0, 5 / 2)"
  "cell small_config (init small_config) 1 0 = (1, 1, 1, 7 / 2)"
  "\<not> solid (init small_config) ! idx small_config 1 1"
  by (simp_all add: init_effect in_obstacle_def at_rest_def free_stream_def small_config_simps
      gamma_val_def power2_eq_square)

subsection \<open>A uniform free stream\<close>

lemma init_uniform:
  assumes "\<forall>i\<le>Nx c + 1. \<forall>j\<le>Ny c + 1. \<not> in_obstacle c i j"
  shows "\<forall>i\<le>Nx c + 1. \<forall>j\<le>Ny c + 1. cell c (init c) i j = free_stream c"
  using assms by (simp add: init_effect(2) less_Suc_eq_le)

lemma uniform_boundary:
  assumes "wf_state c s" "v0 c = 0"
    and "\<forall>i\<le>Nx c + 1. \<forall>j\<le>Ny c + 1. cell c s i j = free_stream c"
    and "i \<le> Nx c + 1" "j \<le> Ny c + 1"
  shows "cell c (apply_boundary c s) i j = free_stream c"
proof -
  have lr: "cell c (boundary_left_right c s) i' j' = free_stream c"
    if "i' \<le> Nx c + 1" "j' \<le> Ny c + 1" for i' j'
    using that assms(3) by (simp add: boundary_left_right_effect(3) [OF assms(1)])
  have "mirror (free_stream c) = free_stream c"
    using assms(2) by (simp add: mirror_def free_stream_def)
  then show ?thesis
    using assms(4,5) lr [of i 1] lr [of i "Ny c"] lr [of i j]
    by (simp add: apply_boundary_effect(3) [OF assms(1)])
qed

lemma lax_friedrichs_uniform:
  assumes "cell c s (i + 1) j = q" "cell c s (i - 1) j = q"
    "cell c s i (j + 1) = q" "cell c s i (j - 1) = q"
  shows "(lax_friedrichs c s rho frho i j, lax_friedrichs c s rhou frhou i j,
     lax_friedrichs c s rhov frhov i j, lax_friedrichs c s E fE i j) = q"
  using assms by (auto simp: lax_friedrichs_def Fx_def Fy_def cell_def)

lemma scenario_config_simps:
  "Nx scenario_config = 4" "Ny scenario_config = 4" "dx scenario_config = 1 / 4"
  "dy scenario_config = 1 / 4" "cx scenario_config = 1 / 2" "cy scenario_config = 1 / 2"
  "radius scenario_config = 0" "rho0 scenario_config = 1" "u0 scenario_config = 1"
  "v0 scenario_config = 0" "p0 scenario_config = 1"
  by (simp_all add: scenario_config_def dx_def dy_def)

lemma scenario_no_obstacle: "\<not> in_obstacle scenario_config i j"
proof -
  let ?a = "(real i - 0.5) * (1 / 4) - 1 / 2" and ?b = "(real j - 0.5) * (1 / 4) - 1 / 2"
  have "real i \<noteq> 5 / 2"
  proof
    assume "real i = 5 / 2"
    then have "real (2 * i) = real 5" by simp
    then have "2 * i = 5" by (simp only: of_nat_eq_iff)
    then show False by presburger
  qed
  then have "?a \<noteq> 0"
    by (simp add: field_simps)
  then have "0 < ?a\<^sup>2"
    by simp
  moreover have "0 \<le> ?b\<^sup>2"
    by simp
  ultimately have "\<not> ?a\<^sup>2 + ?b\<^sup>2 \<le> 0"
    by linarith
  then show ?thesis
    by (simp add: in_obstacle_def scenario_config_simps Let_def)
qed

text \<open>
  A radius of zero alone does not empty the mask: the comparison is inclusive, so a cell
  whose centre is the obstacle centre is solid.
\<close>

lemma radius_zero_centre_solid:
  assumes "radius c = 0" "(real i - 0.5) * dx c = cx c" "(real j - 0.5) * dy c = cy c"
    and "i \<le> Nx c + 1" "j \<le> Ny c + 1"
  shows "solid (init c) ! idx c i j"
  using assms by (simp add: init_effect(1) in_obstacle_def)

section \<open>The claims of the specification\<close>

text \<open>
  One theorem for each claim, in the order of the claims. A theorem with hypotheses is
  followed by an instance at a concrete configuration.
\<close>

text \<open>
  Claim C1. For an interior cell that is not solid, one pass of the update loop leaves in
  the next buffer, for each of the four conserved quantities, a quarter of the sum of the
  quantity at the east, west, north and south neighbours, minus \<open>dt / (2 dx)\<close> times the
  difference of its x-flux at east and west, minus \<open>dt / (2 dy)\<close> times the difference of
  its y-flux at north and south. The pass leaves the current buffer as it was, and the
  result does not depend on what the current buffer holds at the cell itself.
\<close>

theorem interior_update_lax_friedrichs:
  assumes "wf_state c s" "1 \<le> i" "i \<le> Nx c" "1 \<le> j" "j \<le> Ny c" "\<not> solid s ! idx c i j"
  shows "rho_new (update_interior c s) ! idx c i j = lax_friedrichs c s rho frho i j \<and>
    rhou_new (update_interior c s) ! idx c i j = lax_friedrichs c s rhou frhou i j \<and>
    rhov_new (update_interior c s) ! idx c i j = lax_friedrichs c s rhov frhov i j \<and>
    E_new (update_interior c s) ! idx c i j = lax_friedrichs c s E fE i j \<and>
    rho (update_interior c s) = rho s \<and> rhou (update_interior c s) = rhou s \<and>
    rhov (update_interior c s) = rhov s \<and> E (update_interior c s) = E s \<and>
    cell_new c (update_interior c
        (s\<lparr>rho := (rho s)[idx c i j := a], rhou := (rhou s)[idx c i j := b],
           rhov := (rhov s)[idx c i j := d], E := (E s)[idx c i j := e]\<rparr>)) i j =
      cell_new c (update_interior c s) i j"
proof -
  let ?s' = "s\<lparr>rho := (rho s)[idx c i j := a], rhou := (rhou s)[idx c i j := b],
           rhov := (rhov s)[idx c i j := d], E := (E s)[idx c i j := e]\<rparr>"
  note own = lax_friedrichs_own_cell [OF assms(1-5) refl]
  have "cell_new c (update_interior c ?s') i j =
      (lax_friedrichs c ?s' rho frho i j, lax_friedrichs c ?s' rhou frhou i j,
       lax_friedrichs c ?s' rhov frhov i j, lax_friedrichs c ?s' E fE i j)"
    using assms(2-6) own(2) by (intro updated_cell_fluid) (simp_all add: own(1))
  then have "cell_new c (update_interior c ?s') i j = cell_new c (update_interior c s) i j"
    by (simp only: own(3-6) updated_cell_fluid [OF assms])
  then show ?thesis
    using updated_cell_fluid [OF assms]
    by (simp add: cell_new_def update_interior_effect [OF assms(1)])
qed

theorem interior_update_lax_friedrichs_witness:
  "rho_new (update_interior small_config (init small_config)) ! idx small_config 1 1 =
     1 + dt small_config"
proof -
  have "lax_friedrichs small_config (init small_config) rho frho 1 1 = 1 + dt small_config"
    using init_small_cells(1-4)
    by (simp add: lax_friedrichs_def Fx_def Fy_def fluxX_def fluxY_def Let_def cell_def
        small_config_simps del: One_nat_def)
  then show ?thesis
    using interior_update_lax_friedrichs [OF wf_init_small _ _ _ _ init_small_cells(5)]
    by (simp add: small_config_simps)
qed

text \<open>
  Claim C2. Let every cell of the grid hold the free-stream state, as the initializer leaves
  it when no cell centre lies in the obstacle, and let the free stream have no y-component
  and a density that is not zero. Then after one full step (boundary pass, update, commit) every
  interior cell holds the free-stream state again; in particular its density is \<open>rho0\<close> and
  its x-momentum is \<open>rho0 * u0\<close>.
\<close>

theorem free_stream_fixed_point:
  assumes "wf_state c s" "v0 c = 0" "rho0 c \<noteq> 0"
    and "\<forall>i\<le>Nx c + 1. \<forall>j\<le>Ny c + 1. cell c s i j = free_stream c"
    and "1 \<le> i" "i \<le> Nx c" "1 \<le> j" "j \<le> Ny c"
    and "s' = commit c (update_interior c (apply_boundary c s))"
  shows "rho s' ! idx c i j = rho0 c \<and> rhou s' ! idx c i j = rho0 c * u0 c \<and>
    cell c s' i j = free_stream c"
proof -
  let ?s1 = "apply_boundary c s"
  note bc = uniform_boundary [OF assms(1,2,4)]
  have "updated_cell c ?s1 i j = free_stream c"
    unfolding updated_cell_def
    using assms(5-8) bc [of i j]
      lax_friedrichs_uniform [of c ?s1 i j "free_stream c", OF bc bc bc bc]
    by simp
  then have "cell c s' i j = free_stream c"
    using assms(5-9) by (simp add: step_effect(3) [OF assms(1), unfolded step_def])
  then show ?thesis
    by (simp add: cell_def free_stream_def)
qed

theorem free_stream_fixed_point_witness:
  "rho (commit scenario_config (update_interior scenario_config
      (apply_boundary scenario_config (init scenario_config)))) ! idx scenario_config 2 3 = 1 \<and>
   rhou (commit scenario_config (update_interior scenario_config
      (apply_boundary scenario_config (init scenario_config)))) ! idx scenario_config 2 3 = 1"
proof -
  have wf: "wf_state scenario_config (init scenario_config)"
    by (rule wf_init) (simp_all add: scenario_config_simps)
  have uni: "\<forall>i\<le>Nx scenario_config + 1. \<forall>j\<le>Ny scenario_config + 1.
      cell scenario_config (init scenario_config) i j = free_stream scenario_config"
    by (rule init_uniform) (simp add: scenario_no_obstacle)
  show ?thesis
    using free_stream_fixed_point [OF wf _ _ uni _ _ _ _ refl, of 2 3]
    by (simp add: scenario_config_simps)
qed

text \<open>
  Claim C3. An interior cell whose mask entry is set keeps its conservative state from
  every step to the next: the update loop copies the current state of the cell into the
  next buffer, the commit loop copies it back, and the mask itself never changes.
\<close>

theorem solid_cells_frozen:
  assumes "wf_state c s" "1 \<le> i" "i \<le> Nx c" "1 \<le> j" "j \<le> Ny c" "solid s ! idx c i j"
  shows "cell c (fst (time_loop c (Suc n) (s, out))) i j =
      cell c (fst (time_loop c n (s, out))) i j \<and>
    cell c (fst (time_loop c n (s, out))) i j = cell c s i j \<and>
    solid (fst (time_loop c n (s, out))) = solid s \<and>
    cell_new c (update_interior c (apply_boundary c s)) i j = cell c s i j \<and>
    cell c (commit c (update_interior c (apply_boundary c s))) i j = cell c s i j"
proof -
  have frozen: "cell c ((step c ^^ n) s) i j = cell c s i j" for n
  proof (induction n)
    case 0
    show ?case by simp
  next
    case (Suc n)
    have "cell c (step c ((step c ^^ n) s)) i j = cell c ((step c ^^ n) s) i j"
      using assms by (intro solid_cell_step(2)) (simp_all add: wf_steps solid_steps)
    then show ?case
      using Suc by simp
  qed
  show ?thesis
    using assms solid_cell_step [OF assms] frozen [of n] frozen [of "Suc n"]
    by (simp add: fst_time_loop solid_steps step_def)
qed

theorem solid_cells_frozen_witness:
  "cell small_config (fst (time_loop small_config (Suc 1) (init small_config, []))) 2 2 =
     (1, 0, 0, 5 / 2) \<and>
   cell small_config (fst (time_loop small_config 1 (init small_config, []))) 2 2 =
     (1, 0, 0, 5 / 2)"
proof -
  have sol: "solid (init small_config) ! idx small_config 2 2"
    by (simp add: init_effect(1) in_obstacle_def small_config_simps)
  have c0: "cell small_config (init small_config) 2 2 = (1, 0, 0, 5 / 2)"
    by (simp add: init_effect(2) in_obstacle_def at_rest_def small_config_simps gamma_val_def)
  show ?thesis
    using solid_cells_frozen [OF wf_init_small _ _ _ _ sol, of 1 "[]"] c0
    by (simp add: small_config_simps)
qed

text \<open>
  Claim C4. After initialization, the mask entry of every cell, ghost cells included, is
  set exactly when the cell centre \<open>((i - 0.5) * dx, (j - 0.5) * dy)\<close> lies in the closed
  disc of the given radius around \<open>(cx, cy)\<close>; a centre on the rim counts as inside.
\<close>

theorem obstacle_mask:
  assumes "i \<le> Nx c + 1" "j \<le> Ny c + 1"
  shows "solid (init c) ! idx c i j \<longleftrightarrow>
    ((real i - 0.5) * dx c - cx c)\<^sup>2 + ((real j - 0.5) * dy c - cy c)\<^sup>2 \<le> (radius c)\<^sup>2"
  using assms init_effect(1) [of i c j] by (simp add: in_obstacle_def)

theorem obstacle_mask_witness:
  "((real 3 - 0.5) * dx small_config - cx small_config)\<^sup>2 +
     ((real 2 - 0.5) * dy small_config - cy small_config)\<^sup>2 = (radius small_config)\<^sup>2 \<and>
   solid (init small_config) ! idx small_config 3 2 \<and>
   \<not> solid (init small_config) ! idx small_config 1 1 \<and>
   \<not> solid (init small_config) ! idx small_config 4 2"
  using obstacle_mask [of 3 small_config 2] obstacle_mask [of 1 small_config 1]
    obstacle_mask [of 4 small_config 2]
  by (simp add: small_config_simps power2_eq_square)

text \<open>
  Claim C5, as amended. From the end of the boundary pass to the end of the step, every
  cell of the left ghost column that is not a corner holds the free-stream state. The two
  corner cells hold the free-stream density, x-momentum and energy, and the negated
  free-stream y-momentum, which the reflective loop writes last. So the whole column
  holds the free-stream state when \<open>rho0 * v0 = 0\<close>, as it is for the constants of
  \<^verbatim>\<open>main\<close>.
\<close>

theorem inflow_column:
  fixes c :: config and n :: nat and s0 :: state and out :: "(nat \<times> real) list"
  defines "s \<equiv> fst (time_loop c n (s0, out))"
  assumes "wf_state c s0" "j \<le> Ny c + 1"
    and "s' = apply_boundary c s \<or> s' = update_interior c (apply_boundary c s) \<or>
      s' = commit c (update_interior c (apply_boundary c s))"
  shows "cell c s' 0 j =
      (if j = 0 \<or> j = Ny c + 1 then (rho0 c, rho0 c * u0 c, - (rho0 c * v0 c), E0 c)
       else (rho0 c, rho0 c * u0 c, rho0 c * v0 c, E0 c)) \<and>
    (rho0 c * v0 c = 0 \<longrightarrow> cell c s' 0 j = (rho0 c, rho0 c * u0 c, rho0 c * v0 c, E0 c)) \<and>
    fst (time_loop c (Suc n) (s0, out)) = commit c (update_interior c (apply_boundary c s))"
proof -
  have wf: "wf_state c s"
    using assms(2) by (simp add: s_def fst_time_loop wf_steps)
  have "cell c s' 0 j = cell c (apply_boundary c s) 0 j"
    using assms(3,4) ghost_cell_step [OF wf, of 0 j] by (auto simp: step_def)
  moreover have "fst (time_loop c (Suc n) (s0, out)) =
      commit c (update_interior c (apply_boundary c s))"
    by (simp add: s_def fst_time_loop step_def)
  ultimately show ?thesis
    using left_column_boundary [OF wf assms(3)]
    by (simp add: mirror_free_stream) (simp add: free_stream_def)
qed

theorem inflow_column_witness:
  "cell main_config (apply_boundary main_config (init main_config)) 0 0 = (1, 1, 0, 3) \<and>
   cell main_config (step main_config (step main_config (init main_config))) 0 101 =
     (1, 1, 0, 3) \<and>
   cell small_config (step small_config (init small_config)) 0 2 = (1, 1, 1, 7 / 2) \<and>
   cell small_config (step small_config (init small_config)) 0 4 = (1, 1, - 1, 7 / 2)"
proof -
  have wf: "wf_state main_config (init main_config)"
    by (rule wf_init) (simp_all add: main_config_def)
  show ?thesis
    using inflow_column [OF wf, of 0 "apply_boundary main_config (init main_config)" 0 "[]"]
      inflow_column [OF wf, of 101
        "step main_config (step main_config (init main_config))" "Suc 0" "[]"]
      inflow_column [OF wf_init_small, of 2 "step small_config (init small_config)" 0 "[]"]
      inflow_column [OF wf_init_small, of 4 "step small_config (init small_config)" 0 "[]"]
    by (simp add: step_def small_config_simps fst_time_loop)
      (simp add: main_config_def E0_def gamma_val_def)
qed

text \<open>
  With a free stream that has a y-component, the corner \<open>(0, 0)\<close> does not hold the
  free-stream state after the boundary pass.
\<close>

theorem inflow_corner_counterexample:
  "cell small_config (apply_boundary small_config (init small_config)) 0 0 \<noteq>
     (rho0 small_config, rho0 small_config * u0 small_config,
      rho0 small_config * v0 small_config, E0 small_config)"
  using left_column_boundary [OF wf_init_small, of 0]
  by (simp add: mirror_free_stream small_config_simps)

text \<open>
  Claim C6. Right after the boundary pass, in every column the bottom ghost cell holds the
  density, x-momentum and energy of the row-1 cell above it and the negative of its
  y-momentum, and the top ghost cell mirrors the cell of row \<open>Ny\<close> in the same way.
\<close>

theorem reflective_ghost_rows:
  assumes "wf_state c s" "i \<le> Nx c + 1" "s' = apply_boundary c s"
  shows "rho s' ! idx c i 0 = rho s' ! idx c i 1 \<and>
    rhou s' ! idx c i 0 = rhou s' ! idx c i 1 \<and>
    rhov s' ! idx c i 0 = - (rhov s' ! idx c i 1) \<and>
    E s' ! idx c i 0 = E s' ! idx c i 1 \<and>
    rho s' ! idx c i (Ny c + 1) = rho s' ! idx c i (Ny c) \<and>
    rhou s' ! idx c i (Ny c + 1) = rhou s' ! idx c i (Ny c) \<and>
    rhov s' ! idx c i (Ny c + 1) = - (rhov s' ! idx c i (Ny c)) \<and>
    E s' ! idx c i (Ny c + 1) = E s' ! idx c i (Ny c)"
  using ghost_rows_boundary(1,2) [OF assms(1,2)] assms(3)
  by (simp add: cell_def mirror_def)

theorem reflective_ghost_rows_witness:
  "rhov (apply_boundary small_config (init small_config)) ! idx small_config 1 0 = - 1 \<and>
   rhov (apply_boundary small_config (init small_config)) ! idx small_config 1 1 = 1 \<and>
   rhov (apply_boundary small_config (init small_config)) ! idx small_config 1 4 = - 1 \<and>
   rhov (apply_boundary small_config (init small_config)) ! idx small_config 1 3 = 1 \<and>
   E (apply_boundary small_config (init small_config)) ! idx small_config 1 0 = 7 / 2"
proof -
  let ?s = "apply_boundary small_config (init small_config)"
  have "cell small_config (boundary_left_right small_config (init small_config)) 1 j =
      (1, 1, 1, 7 / 2)" if "j = 1 \<or> j = 3" for j
    using that
    by (auto simp: boundary_left_right_effect(3) [OF wf_init_small] init_effect(2)
        in_obstacle_def free_stream_def small_config_simps power2_eq_square)
  then have "cell small_config ?s 1 1 = (1, 1, 1, 7 / 2)" "cell small_config ?s 1 3 = (1, 1, 1, 7 / 2)"
    by (simp_all add: apply_boundary_effect(3) [OF wf_init_small] small_config_simps)
  then show ?thesis
    using reflective_ghost_rows [OF wf_init_small, of 1 ?s]
    by (simp add: cell_def small_config_simps)
qed

text \<open>
  Claim C7. The boundary pass runs the inflow/outflow loop first and the reflective loop
  second. Each of the four corner ghost cells therefore ends with the reflective value: the
  mirror image of what the first loop left in row 1 or row \<open>Ny\<close> of its column, that is of
  the free-stream state on the left and of the outflow copy on the right. What the first
  loop had written into the corners is overwritten.
\<close>

theorem corner_ghost_cells:
  assumes "wf_state c s"
  shows "apply_boundary c s = boundary_bottom_top c (boundary_left_right c s) \<and>
    cell c (boundary_left_right c s) 0 0 = free_stream c \<and>
    cell c (boundary_left_right c s) 0 (Ny c + 1) = free_stream c \<and>
    cell c (boundary_left_right c s) (Nx c + 1) 0 = cell c s (Nx c) 0 \<and>
    cell c (boundary_left_right c s) (Nx c + 1) (Ny c + 1) = cell c s (Nx c) (Ny c + 1) \<and>
    cell c (apply_boundary c s) 0 0 = mirror (cell c (boundary_left_right c s) 0 1) \<and>
    cell c (apply_boundary c s) 0 (Ny c + 1) = mirror (cell c (boundary_left_right c s) 0 (Ny c)) \<and>
    cell c (apply_boundary c s) (Nx c + 1) 0 =
      mirror (cell c (boundary_left_right c s) (Nx c + 1) 1) \<and>
    cell c (apply_boundary c s) (Nx c + 1) (Ny c + 1) =
      mirror (cell c (boundary_left_right c s) (Nx c + 1) (Ny c)) \<and>
    cell c (apply_boundary c s) 0 0 = mirror (free_stream c) \<and>
    cell c (apply_boundary c s) 0 (Ny c + 1) = mirror (free_stream c) \<and>
    cell c (apply_boundary c s) (Nx c + 1) 0 = mirror (cell c s (Nx c) 1) \<and>
    cell c (apply_boundary c s) (Nx c + 1) (Ny c + 1) = mirror (cell c s (Nx c) (Ny c))"
proof -
  let ?lr = "boundary_left_right c s" and ?ab = "apply_boundary c s"
  have lr0: "cell c ?lr 0 j = free_stream c"
    and lrN: "cell c ?lr (Nx c + 1) j = cell c s (Nx c) j" if "j \<le> Ny c + 1" for j
    using that by (simp_all add: boundary_left_right_effect(3) [OF assms])
  have ny: "0 < Ny c"
    using assms by (simp add: wf_state_def)
  have "cell c ?lr 0 0 = free_stream c"
    and "cell c ?lr 0 (Ny c + 1) = free_stream c"
    and "cell c ?lr (Nx c + 1) 0 = cell c s (Nx c) 0"
    and "cell c ?lr (Nx c + 1) (Ny c + 1) = cell c s (Nx c) (Ny c + 1)"
    by (simp_all only: lr0 lrN le_add2 order.refl)
  moreover have bl: "cell c ?ab 0 0 = mirror (cell c ?lr 0 1)"
    and tl: "cell c ?ab 0 (Ny c + 1) = mirror (cell c ?lr 0 (Ny c))"
    using ghost_rows_boundary(3,4) [OF assms, of 0] by simp_all
  moreover have br: "cell c ?ab (Nx c + 1) 0 = mirror (cell c ?lr (Nx c + 1) 1)"
    and tr: "cell c ?ab (Nx c + 1) (Ny c + 1) = mirror (cell c ?lr (Nx c + 1) (Ny c))"
    using ghost_rows_boundary(3,4) [OF assms, of "Nx c + 1"] by simp_all
  moreover have "cell c ?ab 0 0 = mirror (free_stream c)"
    unfolding bl using lr0 [of 1] by simp
  moreover have "cell c ?ab 0 (Ny c + 1) = mirror (free_stream c)"
    unfolding tl using lr0 [of "Ny c"] by simp
  moreover have "cell c ?ab (Nx c + 1) 0 = mirror (cell c s (Nx c) 1)"
    unfolding br using lrN [of 1] by simp
  moreover have "cell c ?ab (Nx c + 1) (Ny c + 1) = mirror (cell c s (Nx c) (Ny c))"
    unfolding tr using lrN [of "Ny c"] by simp
  ultimately show ?thesis
    by (simp only: apply_boundary_def simp_thms)
qed

theorem corner_ghost_cells_witness:
  "cell small_config (boundary_left_right small_config (init small_config)) 0 0 =
     (1, 1, 1, 7 / 2) \<and>
   cell small_config (apply_boundary small_config (init small_config)) 0 0 =
     (1, 1, - 1, 7 / 2) \<and>
   cell small_config (apply_boundary small_config (init small_config)) 4 4 =
     (1, 1, - 1, 7 / 2)"
proof -
  note corners = corner_ghost_cells [OF wf_init_small]
  have "cell small_config (init small_config) 3 3 = (1, 1, 1, 7 / 2)"
    by (simp add: init_effect(2) in_obstacle_def free_stream_def small_config_simps
        power2_eq_square)
  moreover have
    "cell small_config (boundary_left_right small_config (init small_config)) 0 0 =
      free_stream small_config"
    "cell small_config (apply_boundary small_config (init small_config)) 0 0 =
      mirror (free_stream small_config)"
    "cell small_config (apply_boundary small_config (init small_config))
      (Nx small_config + 1) (Ny small_config + 1) =
      mirror (cell small_config (init small_config) (Nx small_config) (Ny small_config))"
    using corners by blast+
  ultimately show ?thesis
    by (simp add: small_config_simps free_stream_def mirror_def)
qed

text \<open>
  Claim C8. The diagnostic line is printed for exactly the step indices divisible by 50,
  step 0 included, in increasing order; the line for step \<open>k\<close> reports the kinetic energy
  of the state committed by step \<open>k\<close>, which is the sum over all interior cells, solid or
  not, of \<open>0.5 * rho * (u * u + v * v)\<close> with \<open>u = rhou / rho\<close> and \<open>v = rhov / rho\<close>; and
  the states the loop passes through are those of the steps alone, printed or not.
\<close>

theorem diagnostics_schedule:
  "snd (time_loop c n (s, out)) =
     out @ map (\<lambda>k. (k, total_kinetic c (fst (time_loop c (Suc k) (s, out)))))
       (filter (\<lambda>k. k mod 50 = 0) [0..<n]) \<and>
   fst (time_loop c n (s, out)) = (step c ^^ n) s \<and>
   total_kinetic c s =
     (\<Sum>i = 1..Nx c. \<Sum>j = 1..Ny c.
        0.5 * rho s ! idx c i j *
          ((rhou s ! idx c i j / rho s ! idx c i j) * (rhou s ! idx c i j / rho s ! idx c i j) +
           (rhov s ! idx c i j / rho s ! idx c i j) * (rhov s ! idx c i j / rho s ! idx c i j)))"
  using total_kinetic_sum [of c s]
  by (simp add: snd_time_loop fst_time_loop)

theorem diagnostics_schedule_witness:
  "map fst (snd (time_loop main_config 120 (init main_config, []))) = [0, 50, 100] \<and>
   map fst (snd (simulate small_config)) = [0]"
proof -
  have "filter (\<lambda>k. k mod 50 = 0) [0..<120] = [0, 50, 100::nat]"
    by code_simp
  moreover have "filter (\<lambda>k. k mod 50 = 0) [0..<2] = [0::nat]"
    by code_simp
  ultimately show ?thesis
    using diagnostics_schedule [of main_config 120 "init main_config" "[]"]
      diagnostics_schedule [of small_config 2 "init small_config" "[]"]
    by (simp add: simulate_def small_config_def comp_def)
qed




text \<open>
  Claim C10. Pressure and both flux functions divide by the density unconditionally:
  each of them is defined when the density is not zero, where it is the value the
  unchecked function computes, and none of them is defined when the density is zero.
\<close>

theorem divisions_defined:
  "(r \<noteq> 0 \<longrightarrow>
      pressure_chk r ru rv e = Some (pressure r ru rv e) \<and>
      fluxX_chk r ru rv e = Some (fluxX r ru rv e) \<and>
      fluxY_chk r ru rv e = Some (fluxY r ru rv e)) \<and>
   (r = 0 \<longrightarrow>
      pressure_chk r ru rv e = None \<and> fluxX_chk r ru rv e = None \<and>
      fluxY_chk r ru rv e = None)"
  by (simp add: divide_chk_def pressure_chk_def fluxX_chk_def fluxY_chk_def
      pressure_def fluxX_def fluxY_def Let_def)

theorem divisions_defined_witness:
  "pressure_chk 1 1 0 3 = Some 1 \<and>
   fluxX_chk 1 1 0 3 = Some \<lparr>frho = 1, frhou = 2, frhov = 0, fE = 4\<rparr> \<and>
   fluxY_chk 1 1 0 3 = Some \<lparr>frho = 0, frhou = 0, frhov = 1, fE = 0\<rparr> \<and>
   pressure_chk 0 1 0 3 = None \<and> fluxX_chk 0 1 0 3 = None \<and> fluxY_chk 0 1 0 3 = None"
  using divisions_defined [of 1 1 0 3] divisions_defined [of 0 1 0 3]
  by (simp add: pressure_def fluxX_def fluxY_def gamma_val_def Let_def)

end
